theory Spec2Isabelle
  imports Complex_Main
begin

section \<open>Python values used by \<open>knapsack_with_boosts\<close>\<close>

text \<open>
  The embedding follows \<^verbatim>\<open>src/solutions/jaume.py\<close>. Python integers are unbounded
  (\<^typ>\<open>int\<close>); the float item values and boost factors are idealised as \<^typ>\<open>real\<close>, so
  every statement about \<open>total_value\<close> below is exact arithmetic, not IEEE rounding.
  The only exception the function itself can raise is the \<open>IndexError\<close> of a list subscript.
\<close>

datatype error = IndexError

text \<open>
  A Python subscript \<^verbatim>\<open>xs[i]\<close> on a list of length \<open>n\<close> reads position \<open>i\<close> when
  \<open>0 \<le> i < n\<close>, position \<open>n + i\<close> when \<open>-n \<le> i < 0\<close>, and raises otherwise.
\<close>

definition norm_index :: "nat \<Rightarrow> int \<Rightarrow> nat option" where
  "norm_index n i =
     (if 0 \<le> i \<and> i < int n then Some (nat i)
      else if - int n \<le> i \<and> i < 0 then Some (nat (int n + i))
      else None)"

definition subscript :: "'a list \<Rightarrow> int \<Rightarrow> error + 'a" where
  "subscript xs i =
     (case norm_index (length xs) i of
        None \<Rightarrow> Inl IndexError
      | Some j \<Rightarrow> Inr (xs ! j))"

section \<open>The constraint model handed to the solver\<close>

text \<open>
  \<open>X i\<close> is the Boolean variable \<^verbatim>\<open>x[i]\<close>; \<open>Z k\<close> is the variable \<^verbatim>\<open>z_var\<close> created
  in the \<open>k\<close>-th iteration of the boost loop (its printed name \<^verbatim>\<open>z[a,b]\<close> need not be
  unique, the variable is). A linear expression is a list of coefficient/variable
  products plus a constant; a model is what \<^verbatim>\<open>NewBoolVar\<close>, \<^verbatim>\<open>Add\<close> and \<^verbatim>\<open>Maximize\<close>
  have recorded.
\<close>

datatype var = X nat | Z nat

datatype 'c linexpr = Lin (terms: "('c \<times> var) list") (offset: 'c)

datatype constraint = Le "int linexpr" "int linexpr" | Ge "int linexpr" "int linexpr"

record model =
  bool_vars :: "var list"
  constraints :: "constraint list"
  objective :: "real linexpr"

type_synonym boost = "int \<times> int \<times> real"

text \<open>The three \<^verbatim>\<open>model.Add\<close> calls of one loop iteration (lines 37 to 40).\<close>

definition link_constraints :: "var \<Rightarrow> var \<Rightarrow> var \<Rightarrow> constraint list" where
  "link_constraints z_var xa xb =
     [Le (Lin [(1, z_var)] 0) (Lin [(1, xa)] 0),
      Le (Lin [(1, z_var)] 0) (Lin [(1, xb)] 0),
      Ge (Lin [(1, z_var)] 0) (Lin [(1, xa), (1, xb)] (- 1))]"

text \<open>
  The loop of lines 33 to 41, with the constraints added so far and the list \<^verbatim>\<open>z\<close> as
  its state. The subscripts \<^verbatim>\<open>x[a]\<close> and \<^verbatim>\<open>x[b]\<close> may raise.
\<close>

fun link_loop ::
  "var list \<Rightarrow> boost list \<Rightarrow> constraint list \<times> ((int \<times> int) \<times> var) list
     \<Rightarrow> error + constraint list \<times> ((int \<times> int) \<times> var) list" where
  "link_loop x [] st = Inr st"
| "link_loop x ((a, b, _) # rest) (cs, z) =
     (let z_var = Z (length z) in
      case subscript x a of
        Inl e \<Rightarrow> Inl e
      | Inr xa \<Rightarrow>
         (case subscript x b of
            Inl e \<Rightarrow> Inl e
          | Inr xb \<Rightarrow>
              link_loop x rest (cs @ link_constraints z_var xa xb, z @ [((a, b), z_var)])))"

text \<open>
  The generator \<^verbatim>\<open>coeffs[i] * x[i] for i in range(n)\<close> of lines 44, 45 and 49 to 50;
  \<^verbatim>\<open>coeffs[i]\<close> raises when the list is shorter than \<open>n\<close>.
\<close>

fun weighted_terms :: "'c list \<Rightarrow> var list \<Rightarrow> nat list \<Rightarrow> error + ('c \<times> var) list" where
  "weighted_terms coeffs x [] = Inr []"
| "weighted_terms coeffs x (i # is) =
     (case subscript coeffs (int i) of
        Inl e \<Rightarrow> Inl e
      | Inr c \<Rightarrow>
         (case subscript x (int i) of
            Inl e \<Rightarrow> Inl e
          | Inr xi \<Rightarrow>
             (case weighted_terms coeffs x is of
                Inl e \<Rightarrow> Inl e
              | Inr ts \<Rightarrow> Inr ((c, xi) # ts))))"

text \<open>The loop of lines 52 to 55 over \<^verbatim>\<open>zip(z, boosts)\<close>.\<close>

fun boost_terms ::
  "real list \<Rightarrow> (((int \<times> int) \<times> var) \<times> boost) list \<Rightarrow> error + (real \<times> var) list" where
  "boost_terms values [] = Inr []"
| "boost_terms values ((((a, b), z_var), (_, _, boost)) # rest) =
     (case subscript values a of
        Inl e \<Rightarrow> Inl e
      | Inr va \<Rightarrow>
         (case boost_terms values rest of
            Inl e \<Rightarrow> Inl e
          | Inr ts \<Rightarrow> Inr ((va * (boost - 1), z_var) # ts)))"

text \<open>
  Lines 26 to 57: everything up to the call of the solver. The integers are Python's
  unbounded ones. What the OR-tools library itself refuses when a constraint is added
  (coefficients and bounds beyond 64 bits at lines 44 and 45) is not part of this
  repository and is not modelled; the statements below are about calls that return a
  result, or about the failure in the boost loop, which runs before those lines.
\<close>

definition build_model ::
  "int list \<Rightarrow> int list \<Rightarrow> real list \<Rightarrow> boost list \<Rightarrow> int \<Rightarrow> int \<Rightarrow> error + model" where
  "build_model weights volumes values boosts max_weight max_volume =
     (let n = length values; x = map X [0..<n] in
      case link_loop x boosts ([], []) of
        Inl e \<Rightarrow> Inl e
      | Inr (link_cs, z) \<Rightarrow>
     (case weighted_terms weights x [0..<n] of
        Inl e \<Rightarrow> Inl e
      | Inr wt \<Rightarrow>
     (case weighted_terms volumes x [0..<n] of
        Inl e \<Rightarrow> Inl e
      | Inr vt \<Rightarrow>
     (case weighted_terms values x [0..<n] of
        Inl e \<Rightarrow> Inl e
      | Inr base \<Rightarrow>
     (case boost_terms values (zip z boosts) of
        Inl e \<Rightarrow> Inl e
      | Inr extra \<Rightarrow>
          Inr \<lparr>bool_vars = x @ map snd z,
               constraints = link_cs @
                 [Le (Lin wt 0) (Lin [] max_weight), Le (Lin vt 0) (Lin [] max_volume)],
               objective = Lin (base @ extra) 0\<rparr>)))))"

section \<open>The solver boundary\<close>

text \<open>
  \<^verbatim>\<open>cp_model.CpSolver\<close> belongs to OR-tools, not to this repository, so it is a
  parameter of the embedding: a function from the time limit and the model to a
  response carrying the status, the value of every variable and the objective value.
\<close>

datatype solver_status = UNKNOWN | MODEL_INVALID | FEASIBLE | INFEASIBLE | OPTIMAL

record response =
  status :: solver_status
  solution :: "var \<Rightarrow> bool"
  objective_value :: real

type_synonym solver = "real \<Rightarrow> model \<Rightarrow> response"

text \<open>
  Lines 59 to 75. The debugging \<^verbatim>\<open>print\<close> of lines 70 to 72 only reads
  \<^verbatim>\<open>weights[i]\<close> and \<^verbatim>\<open>volumes[i]\<close> for selected \<open>i < n\<close>, which the capacity
  constraints have already read, so it neither raises nor changes the result; it is
  left out. Python's \<^verbatim>\<open>(None, None)\<close> is the pair \<open>(None, None)\<close>.
\<close>

definition knapsack_with_boosts ::
  "solver \<Rightarrow> int list \<Rightarrow> int list \<Rightarrow> real list \<Rightarrow> boost list \<Rightarrow> int \<Rightarrow> int \<Rightarrow> real
     \<Rightarrow> error + nat list option \<times> real option" where
  "knapsack_with_boosts solve weights volumes values boosts max_weight max_volume time_limit_s =
     (let n = length values; x = map X [0..<n] in
      case build_model weights volumes values boosts max_weight max_volume of
        Inl e \<Rightarrow> Inl e
      | Inr m \<Rightarrow>
         (let r = solve time_limit_s m in
          if status r \<noteq> OPTIMAL \<and> status r \<noteq> FEASIBLE then Inr (None, None)
          else Inr (Some (filter (\<lambda>i. solution r (x ! i)) [0..<n]),
                    Some (objective_value r))))"

section \<open>Meaning of a model and the contract of the solver\<close>

text \<open>
  Modelled from the spec: the solver itself is an external collaborator, so what a
  model means and what a response promises is taken from sections 4.1 and 6 of the
  specification. A Boolean variable counts as 1 when true and 0 when false; an
  assignment satisfies a model when every recorded constraint holds.
\<close>

fun eval_lin :: "(var \<Rightarrow> bool) \<Rightarrow> ('c :: comm_semiring_1) linexpr \<Rightarrow> 'c" where
  "eval_lin s (Lin ts c) = sum_list (map (\<lambda>(k, v). k * of_bool (s v)) ts) + c"

fun holds :: "(var \<Rightarrow> bool) \<Rightarrow> constraint \<Rightarrow> bool" where
  "holds s (Le l r) = (eval_lin s l \<le> eval_lin s r)"
| "holds s (Ge l r) = (eval_lin s l \<ge> eval_lin s r)"

definition satisfies :: "(var \<Rightarrow> bool) \<Rightarrow> model \<Rightarrow> bool" where
  "satisfies s m = list_all (holds s) (constraints m)"

text \<open>
  Modelled from the spec: section 6 gives the solver's output as a status, "a
  per-variable assignment when status is OPTIMAL or FEASIBLE, and the achieved
  objective value"; the glossary adds that optimal means provably best and feasible
  means valid but not proven best.
\<close>

definition sound_response :: "model \<Rightarrow> response \<Rightarrow> bool" where
  "sound_response m r =
     (if status r = OPTIMAL \<or> status r = FEASIBLE
      then satisfies (solution r) m \<and> objective_value r = eval_lin (solution r) (objective m)
      else True)"



section \<open>Executable solvers that meet the contract\<close>

text \<open>
  To run \<open>knapsack_with_boosts\<close> on concrete inputs the solver parameter needs
  concrete values. \<open>exhaustive_solver\<close> tries every assignment of the model's
  variables and reports a best one as \<open>OPTIMAL\<close> (or \<open>INFEASIBLE\<close> when none
  satisfies the constraints). An assignment is given by the list of its true
  variables.
\<close>

definition asg_of :: "var list \<Rightarrow> var \<Rightarrow> bool" where
  "asg_of S v = (v \<in> set S)"

definition feasible_selections :: "model \<Rightarrow> var list list" where
  "feasible_selections m = filter (\<lambda>S. satisfies (asg_of S) m) (subseqs (bool_vars m))"

definition better :: "model \<Rightarrow> var list \<Rightarrow> var list \<Rightarrow> var list" where
  "better m T B =
     (if eval_lin (asg_of B) (objective m) < eval_lin (asg_of T) (objective m) then T else B)"

definition exhaustive_solver :: solver where
  "exhaustive_solver time_limit_s m =
     (case feasible_selections m of
        [] \<Rightarrow> \<lparr>status = INFEASIBLE, solution = (\<lambda>_. False), objective_value = 0\<rparr>
      | S # Ss \<Rightarrow>
          (let best = fold (better m) Ss S in
           \<lparr>status = OPTIMAL, solution = asg_of best,
            objective_value = eval_lin (asg_of best) (objective m)\<rparr>))"

text \<open>A solver whose time limit runs out before it has found anything.\<close>

definition no_answer_solver :: solver where
  "no_answer_solver time_limit_s m =
     \<lparr>status = UNKNOWN, solution = (\<lambda>_. False), objective_value = 0\<rparr>"

section \<open>Notions the specification states its properties with\<close>

text \<open>
  The value recomputed from a returned selection, in the words of section 8: the sum
  of \<open>value_i\<close> over the selected indices plus \<open>value_a * (factor - 1)\<close> for every
  boost triplet whose two endpoints are both among the selected indices.
\<close>

definition recomputed_value :: "real list \<Rightarrow> boost list \<Rightarrow> nat list \<Rightarrow> real" where
  "recomputed_value values boosts sel =
     sum_list (map (\<lambda>i. values ! i) sel) +
     sum_list (map (\<lambda>(a, b, factor).
        if a \<in> int ` set sel \<and> b \<in> int ` set sel then values ! nat a * (factor - 1) else 0)
        boosts)"

text \<open>
  The standard 0/1 knapsack with two capacity constraints, in the words of section 4.1
  without its boost part: one Boolean variable per item, the weight and the volume
  constraint, and the objective \<open>\<Sum> value_i * x_i\<close>.
\<close>

definition standard_knapsack_model ::
  "int list \<Rightarrow> int list \<Rightarrow> real list \<Rightarrow> int \<Rightarrow> int \<Rightarrow> model" where
  "standard_knapsack_model weights volumes values max_weight max_volume =
     \<lparr>bool_vars = map X [0..<length values],
      constraints =
        [Le (Lin (map (\<lambda>i. (weights ! i, X i)) [0..<length values]) 0) (Lin [] max_weight),
         Le (Lin (map (\<lambda>i. (volumes ! i, X i)) [0..<length values]) 0) (Lin [] max_volume)],
      objective = Lin (map (\<lambda>i. (values ! i, X i)) [0..<length values]) 0\<rparr>"

text \<open>
  The optimal objective value of a model, and the renaming of variables that skips
  the conjunction variable of boost \<open>k\<close> (used to compare a model with the one built
  after that boost is removed from the input).
\<close>

definition is_optimum :: "model \<Rightarrow> real \<Rightarrow> bool" where
  "is_optimum m v =
     ((\<exists>s. satisfies s m \<and> eval_lin s (objective m) = v) \<and>
      (\<forall>s. satisfies s m \<longrightarrow> eval_lin s (objective m) \<le> v))"

fun skip_z :: "nat \<Rightarrow> var \<Rightarrow> var" where
  "skip_z k (X i) = X i"
| "skip_z k (Z j) = (if j < k then Z j else Z (Suc j))"

section \<open>Auxiliary notions for the proofs\<close>

text \<open>
  \<open>pos n a\<close> is the item that the subscript \<^verbatim>\<open>x[a]\<close> reads when it does not raise,
  which is the case exactly when \<open>in_range n a\<close>. The functions \<open>link_of\<close>, \<open>z_of\<close>
  and \<open>extra_of\<close> give what one iteration of the two boost loops contributes for the
  boost at position \<open>k\<close>.
\<close>

definition pos :: "nat \<Rightarrow> int \<Rightarrow> nat" where
  "pos n a = (if a < 0 then nat (int n + a) else nat a)"

definition in_range :: "nat \<Rightarrow> int \<Rightarrow> bool" where
  "in_range n a = (- int n \<le> a \<and> a < int n)"

fun valid_boost :: "nat \<Rightarrow> boost \<Rightarrow> bool" where
  "valid_boost n (a, b, factor) = (in_range n a \<and> in_range n b)"

fun link_of :: "nat \<Rightarrow> nat \<times> boost \<Rightarrow> constraint list" where
  "link_of n (k, a, b, factor) = link_constraints (Z k) (X (pos n a)) (X (pos n b))"

fun z_of :: "nat \<times> boost \<Rightarrow> (int \<times> int) \<times> var" where
  "z_of (k, a, b, factor) = ((a, b), Z k)"

fun extra_of :: "real list \<Rightarrow> nat \<times> boost \<Rightarrow> real \<times> var" where
  "extra_of values (k, a, b, factor) = (values ! pos (length values) a * (factor - 1), Z k)"

text \<open>
  The model that \<open>build_model\<close> returns whenever it returns one (lemma
  \<open>build_model_closed\<close> below), the condition under which it does, and what the
  linking constraints of one boost say about an assignment.
\<close>

definition built :: "int list \<Rightarrow> int list \<Rightarrow> real list \<Rightarrow> boost list \<Rightarrow> int \<Rightarrow> int \<Rightarrow> model" where
  "built weights volumes values boosts max_weight max_volume =
     \<lparr>bool_vars = map X [0..<length values] @ map Z [0..<length boosts],
      constraints = concat (map (link_of (length values)) (enumerate 0 boosts)) @
        [Le (Lin (map (\<lambda>i. (weights ! i, X i)) [0..<length values]) 0) (Lin [] max_weight),
         Le (Lin (map (\<lambda>i. (volumes ! i, X i)) [0..<length values]) 0) (Lin [] max_volume)],
      objective = Lin (map (\<lambda>i. (values ! i, X i)) [0..<length values] @
                       map (extra_of values) (enumerate 0 boosts)) 0\<rparr>"

definition buildable :: "int list \<Rightarrow> int list \<Rightarrow> real list \<Rightarrow> boost list \<Rightarrow> bool" where
  "buildable weights volumes values boosts =
     (list_all (valid_boost (length values)) boosts \<and>
      length values \<le> length weights \<and> length values \<le> length volumes)"

fun linked :: "nat \<Rightarrow> (var \<Rightarrow> bool) \<Rightarrow> nat \<times> boost \<Rightarrow> bool" where
  "linked n s (k, a, b, factor) = (s (Z k) = (s (X (pos n a)) \<and> s (X (pos n b))))"




section \<open>Subscripts and the closed form of \<open>build_model\<close>\<close>

lemma norm_index_pos:
  "norm_index n a = (if in_range n a then Some (pos n a) else None)"
  by (auto simp: norm_index_def in_range_def pos_def)

lemma pos_less: "in_range n a \<Longrightarrow> pos n a < n"
  by (auto simp: in_range_def pos_def)

lemma subscript_X:
  "subscript (map X [0..<n]) a = (if in_range n a then Inr (X (pos n a)) else Inl IndexError)"
  by (simp add: subscript_def norm_index_pos pos_less)

lemma subscript_nat:
  "subscript xs (int i) = (if i < length xs then Inr (xs ! i) else Inl IndexError)"
  by (simp add: subscript_def norm_index_def)

lemma link_loop_closed:
  "link_loop (map X [0..<n]) boosts (cs, z) =
     (if list_all (valid_boost n) boosts
      then Inr (cs @ concat (map (link_of n) (enumerate (length z) boosts)),
                z @ map z_of (enumerate (length z) boosts))
      else Inl IndexError)"
proof (induction boosts arbitrary: cs z)
  case Nil
  show ?case by simp
next
  case (Cons t boosts)
  obtain a b f where t: "t = (a, b, f)" by (cases t)
  show ?case
    unfolding t by (simp add: subscript_X Cons.IH Let_def)
qed

lemma weighted_terms_closed:
  "\<forall>i \<in> set is. i < n \<Longrightarrow>
   weighted_terms coeffs (map X [0..<n]) is =
     (if \<forall>i \<in> set is. i < length coeffs
      then Inr (map (\<lambda>i. (coeffs ! i, X i)) is) else Inl IndexError)"
  by (induction "is") (auto simp: subscript_nat)

lemma weighted_terms_range:
  "weighted_terms coeffs (map X [0..<n]) [0..<n] =
     (if n \<le> length coeffs
      then Inr (map (\<lambda>i. (coeffs ! i, X i)) [0..<n]) else Inl IndexError)"
proof -
  have "(\<forall>i \<in> set [0..<n]. i < length coeffs) = (n \<le> length coeffs)"
    by (auto simp: not_le dest: bspec [where x = "length coeffs"])
  then show ?thesis
    using weighted_terms_closed [of "[0..<n]" n coeffs] by simp
qed

lemma subscript_values:
  "in_range (length values) a \<Longrightarrow> subscript values a = Inr (values ! pos (length values) a)"
  by (simp add: subscript_def norm_index_pos)

lemma boost_terms_closed:
  "list_all (valid_boost (length values)) boosts \<Longrightarrow>
   boost_terms values (zip (map z_of (enumerate k boosts)) boosts) =
     Inr (map (extra_of values) (enumerate k boosts))"
proof (induction boosts arbitrary: k)
  case Nil
  show ?case by simp
next
  case (Cons t boosts)
  obtain a b f where t: "t = (a, b, f)" by (cases t)
  from Cons show ?case
    unfolding t by (simp add: subscript_values)
qed

lemma snd_z_of: "map snd (map z_of (enumerate k boosts)) = map Z [k..<k + length boosts]"
proof (induction boosts arbitrary: k)
  case Nil
  show ?case by simp
next
  case (Cons t boosts)
  obtain a b f where t: "t = (a, b, f)" by (cases t)
  have "k < k + length (t # boosts)" by simp
  then have "[k..<k + length (t # boosts)] = k # [Suc k..<k + length (t # boosts)]"
    by (rule upt_conv_Cons)
  then have "[k..<k + length (t # boosts)] = k # [Suc k..<Suc k + length boosts]"
    by simp
  with Cons [of "Suc k"] show ?case
    unfolding t by (simp del: upt_Suc)
qed

lemma build_model_closed:
  "build_model weights volumes values boosts max_weight max_volume =
     (if buildable weights volumes values boosts
      then Inr (built weights volumes values boosts max_weight max_volume)
      else Inl IndexError)"
  using snd_z_of [of 0 boosts]
  by (simp add: build_model_def buildable_def built_def link_loop_closed weighted_terms_range
      boost_terms_closed Let_def)

lemma link_constraints_iff:
  "list_all (holds s) (link_constraints zv xa xb) = (s zv = (s xa \<and> s xb))"
  by (cases "s zv"; cases "s xa"; cases "s xb") (simp_all add: link_constraints_def)

lemma link_of_iff: "list_all (holds s) (link_of n kt) = linked n s kt"
  by (cases kt) (simp add: link_constraints_iff)

lemma eval_weighted:
  fixes c :: "nat \<Rightarrow> 'c :: comm_semiring_1"
  shows "sum_list (map ((\<lambda>(k, v). k * of_bool (s v)) \<circ> (\<lambda>i. (c i, X i))) is) =
   sum_list (map c (filter (\<lambda>i. s (X i)) is))"
  by (induction "is") simp_all

lemma satisfies_built:
  "satisfies s (built weights volumes values boosts max_weight max_volume) =
     (list_all (linked (length values) s) (enumerate 0 boosts) \<and>
      sum_list (map (\<lambda>i. weights ! i) (filter (\<lambda>i. s (X i)) [0..<length values])) \<le> max_weight \<and>
      sum_list (map (\<lambda>i. volumes ! i) (filter (\<lambda>i. s (X i)) [0..<length values])) \<le> max_volume)"
  by (auto simp: satisfies_def built_def list_all_iff link_of_iff [unfolded list_all_iff]
      eval_weighted)

lemma eval_objective_built:
  "eval_lin s (objective (built weights volumes values boosts max_weight max_volume)) =
     sum_list (map (\<lambda>i. values ! i) (filter (\<lambda>i. s (X i)) [0..<length values])) +
     sum_list (map ((\<lambda>(c, v). c * of_bool (s v)) \<circ> extra_of values) (enumerate 0 boosts))"
  by (simp add: built_def eval_weighted)

lemma linked_extra_sum:
  "list_all (linked (length values) s) (enumerate k boosts) \<Longrightarrow>
   sum_list (map ((\<lambda>(c, v). c * of_bool (s v)) \<circ> extra_of values) (enumerate k boosts)) =
   sum_list (map (\<lambda>(a, b, factor).
      if s (X (pos (length values) a)) \<and> s (X (pos (length values) b))
      then values ! pos (length values) a * (factor - 1) else 0) boosts)"
proof (induction boosts arbitrary: k)
  case Nil
  show ?case by simp
next
  case (Cons t boosts)
  obtain a b f where t: "t = (a, b, f)" by (cases t)
  from Cons.prems have "list_all (linked (length values) s) (enumerate (Suc k) boosts)"
    by simp
  from Cons.IH [OF this] Cons.prems show ?case
    unfolding t by simp
qed

lemma selected_filter:
  "filter (\<lambda>i. s (map X [0..<n] ! i)) [0..<n] = filter (\<lambda>i. s (X i)) [0..<n]"
  by (rule filter_cong) simp_all

lemma knapsack_run:
  assumes "build_model weights volumes values boosts max_weight max_volume = Inr m"
  shows "knapsack_with_boosts solve weights volumes values boosts max_weight max_volume time_limit_s =
     (if status (solve time_limit_s m) \<noteq> OPTIMAL \<and> status (solve time_limit_s m) \<noteq> FEASIBLE then Inr (None, None)
      else Inr (Some (filter (\<lambda>i. solution (solve time_limit_s m) (X i)) [0..<length values]),
                Some (objective_value (solve time_limit_s m))))"
  using assms by (simp add: knapsack_with_boosts_def Let_def selected_filter)

lemma build_model_InrD:
  assumes "build_model weights volumes values boosts max_weight max_volume = Inr m"
  shows "buildable weights volumes values boosts"
    and "m = built weights volumes values boosts max_weight max_volume"
  using assms by (simp_all add: build_model_closed split: if_splits)

lemma knapsack_SomeD:
  assumes "build_model weights volumes values boosts max_weight max_volume = Inr m"
    and "knapsack_with_boosts solve weights volumes values boosts max_weight max_volume time_limit_s =
           Inr (Some sel, total_value)"
  shows "status (solve time_limit_s m) = OPTIMAL \<or> status (solve time_limit_s m) = FEASIBLE"
    and "sel = filter (\<lambda>i. solution (solve time_limit_s m) (X i)) [0..<length values]"
    and "total_value = Some (objective_value (solve time_limit_s m))"
  using assms(2) unfolding knapsack_run [OF assms(1)] by (auto split: if_splits)

lemma fold_better_in: "fold (better m) Ss S \<in> set (S # Ss)"
  by (induction Ss arbitrary: S) (auto simp: better_def)



lemma feasible_selections_sat:
  "S \<in> set (feasible_selections m) \<Longrightarrow> satisfies (asg_of S) m"
  by (simp add: feasible_selections_def)

lemma exhaustive_solver_sound: "sound_response m (exhaustive_solver time_limit_s m)"
proof (cases "feasible_selections m")
  case Nil
  then show ?thesis by (simp add: sound_response_def exhaustive_solver_def)
next
  case (Cons S Ss)
  have "fold (better m) Ss S \<in> set (feasible_selections m)"
    unfolding Cons by (rule fold_better_in)
  then have "satisfies (asg_of (fold (better m) Ss S)) m"
    by (rule feasible_selections_sat)
  then show ?thesis
    by (simp add: sound_response_def exhaustive_solver_def Cons Let_def)
qed





section \<open>A worked input\<close>

text \<open>
  The scenario of section 8 of the specification: two items that fit together, and a
  boost that doubles the first when the second comes along.
\<close>

lemma scenario_model:
  "build_model [2, 3] [1, 1] [10, 10] [(0, 1, 2)] 5 2 =
     Inr (built [2, 3] [1, 1] [10, 10] [(0, 1, 2)] 5 2)"
  by (simp add: build_model_closed buildable_def in_range_def)

lemma scenario_run:
  "knapsack_with_boosts exhaustive_solver [2, 3] [1, 1] [10, 10] [(0, 1, 2)] 5 2 10 =
     Inr (Some [0, 1], Some 30)"
  by code_simp

lemma scenario_status:
  "status (exhaustive_solver 10 (built [2, 3] [1, 1] [10, 10] [(0, 1, 2)] 5 2)) = OPTIMAL"
  by code_simp

section \<open>Capacity constraints\<close>

lemma selection_within_capacity:
  assumes "build_model weights volumes values boosts max_weight max_volume = Inr m"
    and "sound_response m (solve time_limit_s m)"
    and "knapsack_with_boosts solve weights volumes values boosts max_weight max_volume time_limit_s =
           Inr (Some sel, total_value)"
  shows "sum_list (map (\<lambda>i. weights ! i) sel) \<le> max_weight \<and>
         sum_list (map (\<lambda>i. volumes ! i) sel) \<le> max_volume \<and>
         set sel \<subseteq> {..<length weights} \<inter> {..<length volumes}"
proof -
  note m = build_model_InrD [OF assms(1)]
  note r = knapsack_SomeD [OF assms(1,3)]
  from assms(2) r(1) have "satisfies (solution (solve time_limit_s m)) m"
    by (auto simp: sound_response_def)
  then have "sum_list (map (\<lambda>i. weights ! i) sel) \<le> max_weight"
    and "sum_list (map (\<lambda>i. volumes ! i) sel) \<le> max_volume"
    unfolding m(2) satisfies_built r(2) by simp_all
  moreover have "set sel \<subseteq> {..<length weights} \<inter> {..<length volumes}"
    using m(1) unfolding r(2) buildable_def by auto
  ultimately show ?thesis by simp
qed

text \<open>
  Claim C3. Every selection that \<open>knapsack_with_boosts\<close> returns respects both
  capacities: the weights of the selected items sum to at most \<open>max_weight\<close> and their
  volumes to at most \<open>max_volume\<close>, and every selected index is a position of both
  lists. The solver is assumed to keep its contract on the model it was given; the
  signs of the weights and volumes play no role.
\<close>

theorem capacity_respected:
  assumes "build_model weights volumes values boosts max_weight max_volume = Inr m"
    and "sound_response m (solve time_limit_s m)"
    and "knapsack_with_boosts solve weights volumes values boosts max_weight max_volume time_limit_s =
           Inr (Some sel, total_value)"
  shows "sum_list (map (\<lambda>i. weights ! i) sel) \<le> max_weight \<and>
         sum_list (map (\<lambda>i. volumes ! i) sel) \<le> max_volume \<and>
         set sel \<subseteq> {..<length weights} \<inter> {..<length volumes}"
  using assms by (rule selection_within_capacity)

theorem capacity_respected_witness:
  "build_model [2, 3] [1, 1] [10, 10] [(0, 1, 2)] 5 2 =
     Inr (built [2, 3] [1, 1] [10, 10] [(0, 1, 2)] 5 2) \<and>
   sound_response (built [2, 3] [1, 1] [10, 10] [(0, 1, 2)] 5 2)
     (exhaustive_solver 10 (built [2, 3] [1, 1] [10, 10] [(0, 1, 2)] 5 2)) \<and>
   knapsack_with_boosts exhaustive_solver [2, 3] [1, 1] [10, 10] [(0, 1, 2)] 5 2 10 =
     Inr (Some [0, 1], Some 30) \<and>
   sum_list (map (\<lambda>i. [2, 3] ! i) [0, 1]) \<le> (5 :: int) \<and>
   sum_list (map (\<lambda>i. [1, 1] ! i) [0, 1]) \<le> (2 :: int) \<and>
   set [0, 1 :: nat] \<subseteq> {..<length [2, 3 :: int]} \<inter> {..<length [1, 1 :: int]}"
  using capacity_respected [where solve = exhaustive_solver and time_limit_s = 10,
      OF scenario_model exhaustive_solver_sound scenario_run]
    scenario_model exhaustive_solver_sound scenario_run
  by blast

section \<open>Reading the result back\<close>

text \<open>
  Claim C8. When the solver reports \<open>OPTIMAL\<close> or \<open>FEASIBLE\<close>, the function returns
  the solver's objective value together with a selection that is exactly the set of
  indices \<open>i < n\<close> whose variable \<open>x_i\<close> is true in the solved assignment, listed in
  strictly ascending order and therefore without duplicates.
\<close>

theorem selected_indices_ascending:
  assumes "build_model weights volumes values boosts max_weight max_volume = Inr m"
    and "status (solve time_limit_s m) = OPTIMAL \<or> status (solve time_limit_s m) = FEASIBLE"
  shows "\<exists>sel. knapsack_with_boosts solve weights volumes values boosts max_weight max_volume time_limit_s =
            Inr (Some sel, Some (objective_value (solve time_limit_s m))) \<and>
          set sel = {i. i < length values \<and> solution (solve time_limit_s m) (X i)} \<and>
          sorted_wrt (<) sel \<and> distinct sel"
proof -
  let ?sel = "filter (\<lambda>i. solution (solve time_limit_s m) (X i)) [0..<length values]"
  have "knapsack_with_boosts solve weights volumes values boosts max_weight max_volume time_limit_s =
          Inr (Some ?sel, Some (objective_value (solve time_limit_s m)))"
    using assms(2) unfolding knapsack_run [OF assms(1)] by auto
  moreover have "set ?sel = {i. i < length values \<and> solution (solve time_limit_s m) (X i)}"
    by auto
  moreover have "sorted_wrt (<) ?sel"
    by (rule sorted_wrt_filter) (simp add: sorted_wrt_upt)
  moreover have "distinct ?sel"
    by simp
  ultimately show ?thesis by blast
qed

theorem selected_indices_ascending_witness:
  "build_model [2, 3] [1, 1] [10, 10] [(0, 1, 2)] 5 2 =
     Inr (built [2, 3] [1, 1] [10, 10] [(0, 1, 2)] 5 2) \<and>
   status (exhaustive_solver 10 (built [2, 3] [1, 1] [10, 10] [(0, 1, 2)] 5 2)) = OPTIMAL \<and>
   (\<exists>sel. knapsack_with_boosts exhaustive_solver [2, 3] [1, 1] [10, 10] [(0, 1, 2)] 5 2 10 =
       Inr (Some sel, Some (objective_value
         (exhaustive_solver 10 (built [2, 3] [1, 1] [10, 10] [(0, 1, 2)] 5 2)))) \<and>
     set sel = {i. i < length [10, 10 :: real] \<and>
       solution (exhaustive_solver 10 (built [2, 3] [1, 1] [10, 10] [(0, 1, 2)] 5 2)) (X i)} \<and>
     sorted_wrt (<) sel \<and> distinct sel)"
  using selected_indices_ascending [where solve = exhaustive_solver and time_limit_s = 10,
      OF scenario_model disjI1 [OF scenario_status]]
    scenario_model scenario_status
  by blast

text \<open>
  Claim C5. When the solver's status is neither \<open>OPTIMAL\<close> nor \<open>FEASIBLE\<close> (so
  \<open>INFEASIBLE\<close>, \<open>UNKNOWN\<close> or \<open>MODEL_INVALID\<close>), the function returns the explicit
  no-solution pair \<open>(None, None)\<close>: a normal return, not an exception, and not an empty
  selection.
\<close>

theorem no_solution_result:
  assumes "build_model weights volumes values boosts max_weight max_volume = Inr m"
    and "status (solve time_limit_s m) \<noteq> OPTIMAL" and "status (solve time_limit_s m) \<noteq> FEASIBLE"
  shows "knapsack_with_boosts solve weights volumes values boosts max_weight max_volume time_limit_s =
           Inr (None, None)"
  using assms(2,3) unfolding knapsack_run [OF assms(1)] by simp

theorem no_solution_result_witness:
  "build_model [2, 3] [1, 1] [10, 10] [(0, 1, 2)] 5 2 =
     Inr (built [2, 3] [1, 1] [10, 10] [(0, 1, 2)] 5 2) \<and>
   status (no_answer_solver 10 (built [2, 3] [1, 1] [10, 10] [(0, 1, 2)] 5 2)) \<noteq> OPTIMAL \<and>
   status (no_answer_solver 10 (built [2, 3] [1, 1] [10, 10] [(0, 1, 2)] 5 2)) \<noteq> FEASIBLE \<and>
   knapsack_with_boosts no_answer_solver [2, 3] [1, 1] [10, 10] [(0, 1, 2)] 5 2 10 =
     Inr (None, None)"
proof -
  have s: "status (no_answer_solver 10 (built [2, 3] [1, 1] [10, 10] [(0, 1, 2)] 5 2)) \<noteq> OPTIMAL"
    "status (no_answer_solver 10 (built [2, 3] [1, 1] [10, 10] [(0, 1, 2)] 5 2)) \<noteq> FEASIBLE"
    by (simp_all add: no_answer_solver_def)
  from no_solution_result [where solve = no_answer_solver and time_limit_s = 10,
      OF scenario_model s] scenario_model s show ?thesis
    by blast
qed

section \<open>The linking constraints\<close>

lemma enumerate_nth_mem: "k < length xs \<Longrightarrow> (k, xs ! k) \<in> set (enumerate 0 xs)"
  by (simp add: in_set_enumerate_eq)

text \<open>
  Claim C2. For the \<open>k\<close>-th boost triplet \<open>(a, b, factor)\<close> of an input whose model
  is built, the subscripts \<^verbatim>\<open>x[a]\<close> and \<^verbatim>\<open>x[b]\<close> denote variables \<open>xa\<close> and
  \<open>xb\<close>, the model contains the three linking constraints \<open>z_k \<le> xa\<close>, \<open>z_k \<le> xb\<close>
  and \<open>z_k \<ge> xa + xb - 1\<close>, and a Boolean assignment satisfies these three exactly
  when \<open>z_k\<close> is the conjunction of \<open>xa\<close> and \<open>xb\<close>: \<open>z_k = 1\<close> if and only if both are
  1, and \<open>z_k = 0\<close> otherwise.
\<close>

theorem linking_forces_conjunction:
  assumes "build_model weights volumes values boosts max_weight max_volume = Inr m"
    and "k < length boosts" and "boosts ! k = (a, b, factor)"
  shows "\<exists>xa xb. subscript (map X [0..<length values]) a = Inr xa \<and>
           subscript (map X [0..<length values]) b = Inr xb \<and>
           set (link_constraints (Z k) xa xb) \<subseteq> set (constraints m) \<and>
           (\<forall>s. list_all (holds s) (link_constraints (Z k) xa xb) = (s (Z k) = (s xa \<and> s xb)))"
proof -
  note m = build_model_InrD [OF assms(1)]
  from assms(2,3) have mem: "(a, b, factor) \<in> set boosts"
    by (metis nth_mem)
  with m(1) have ok: "in_range (length values) a" "in_range (length values) b"
    by (auto simp: buildable_def list_all_iff)
  let ?xa = "X (pos (length values) a)" and ?xb = "X (pos (length values) b)"
  have "subscript (map X [0..<length values]) a = Inr ?xa"
    and "subscript (map X [0..<length values]) b = Inr ?xb"
    using ok by (simp_all add: subscript_X)
  moreover have "set (link_constraints (Z k) ?xa ?xb) \<subseteq> set (constraints m)"
  proof -
    have "(k, a, b, factor) \<in> set (enumerate 0 boosts)"
      using enumerate_nth_mem [OF assms(2)] assms(3) by simp
    then have "set (link_of (length values) (k, a, b, factor)) \<subseteq>
        set (concat (map (link_of (length values)) (enumerate 0 boosts)))"
      by (simp only: set_concat set_map) blast
    then show ?thesis
      unfolding m(2) built_def by auto
  qed
  moreover have "\<forall>s. list_all (holds s) (link_constraints (Z k) ?xa ?xb) =
      (s (Z k) = (s ?xa \<and> s ?xb))"
    by (simp add: link_constraints_iff)
  ultimately show ?thesis by blast
qed

theorem linking_forces_conjunction_witness:
  "build_model [2, 3] [1, 1] [10, 10] [(0, 1, 2)] 5 2 =
     Inr (built [2, 3] [1, 1] [10, 10] [(0, 1, 2)] 5 2) \<and>
   (0 :: nat) < length [(0 :: int, 1 :: int, 2 :: real)] \<and>
   [(0 :: int, 1 :: int, 2 :: real)] ! 0 = (0, 1, 2) \<and>
   (\<exists>xa xb. subscript (map X [0..<length [10, 10 :: real]]) 0 = Inr xa \<and>
      subscript (map X [0..<length [10, 10 :: real]]) 1 = Inr xb \<and>
      set (link_constraints (Z 0) xa xb) \<subseteq>
        set (constraints (built [2, 3] [1, 1] [10, 10] [(0, 1, 2)] 5 2)) \<and>
      (\<forall>s. list_all (holds s) (link_constraints (Z 0) xa xb) = (s (Z 0) = (s xa \<and> s xb))))"
proof -
  have k: "(0 :: nat) < length [(0 :: int, 1 :: int, 2 :: real)]"
    and t: "[(0 :: int, 1 :: int, 2 :: real)] ! 0 = (0, 1, 2)"
    by simp_all
  from linking_forces_conjunction [OF scenario_model k t] scenario_model k t
  show ?thesis by blast
qed

section \<open>The reported value\<close>

lemma total_value_general:
  assumes "build_model weights volumes values boosts max_weight max_volume = Inr m"
    and "sound_response m (solve time_limit_s m)"
    and "knapsack_with_boosts solve weights volumes values boosts max_weight max_volume time_limit_s =
           Inr (Some sel, Some total_value)"
  shows "total_value = sum_list (map (\<lambda>i. values ! i) sel) +
     sum_list (map (\<lambda>(a, b, factor).
        if pos (length values) a \<in> set sel \<and> pos (length values) b \<in> set sel
        then values ! pos (length values) a * (factor - 1) else 0) boosts)"
proof -
  note m = build_model_InrD [OF assms(1)]
  note r = knapsack_SomeD [OF assms(1,3)]
  let ?s = "solution (solve time_limit_s m)"
  from assms(2) r(1) have sat: "satisfies ?s m"
    and val: "objective_value (solve time_limit_s m) = eval_lin ?s (objective m)"
    by (auto simp: sound_response_def)
  from sat have linked: "list_all (linked (length values) ?s) (enumerate 0 boosts)"
    unfolding m(2) satisfies_built by simp
  have sel: "pos (length values) a \<in> set sel = ?s (X (pos (length values) a))"
    if "in_range (length values) a" for a
    using pos_less [OF that] unfolding r(2) by simp
  have same: "map (\<lambda>(a, b, factor).
        if ?s (X (pos (length values) a)) \<and> ?s (X (pos (length values) b))
        then values ! pos (length values) a * (factor - 1) else 0) boosts =
      map (\<lambda>(a, b, factor).
        if pos (length values) a \<in> set sel \<and> pos (length values) b \<in> set sel
        then values ! pos (length values) a * (factor - 1) else 0) boosts"
    using m(1) by (intro map_cong refl) (auto simp: buildable_def list_all_iff sel)
  have "total_value = eval_lin ?s (objective m)"
    using r(3) val by simp
  also have "\<dots> = sum_list (map (\<lambda>i. values ! i) sel) +
      sum_list (map ((\<lambda>(c, v). c * of_bool (?s v)) \<circ> extra_of values) (enumerate 0 boosts))"
    unfolding r(2) by (subst m(2)) (rule eval_objective_built)
  finally show ?thesis
    unfolding linked_extra_sum [OF linked] same .
qed

text \<open>
  Claim C1, as amended. For every input whose boost endpoints are all non-negative,
  and every selection and value that \<open>knapsack_with_boosts\<close> returns from a solver
  that keeps its contract, the value equals the sum of \<open>value_i\<close> over the selected
  indices plus \<open>value_a * (factor - 1)\<close> over exactly those boost triplets whose
  endpoints \<open>a\<close> and \<open>b\<close> are both selected. (A returned result already implies that
  the endpoints are below \<open>n\<close>.) With real arithmetic the equality is exact.
\<close>

theorem total_value_recomputed:
  assumes "build_model weights volumes values boosts max_weight max_volume = Inr m"
    and "sound_response m (solve time_limit_s m)"
    and "knapsack_with_boosts solve weights volumes values boosts max_weight max_volume time_limit_s =
           Inr (Some sel, Some total_value)"
    and "list_all (\<lambda>(a, b, factor). 0 \<le> a \<and> 0 \<le> b) boosts"
  shows "total_value = recomputed_value values boosts sel"
proof -
  have mem: "a \<in> int ` set sel = (nat a \<in> set sel)" if "0 \<le> a" for a
    using that by (auto simp: image_iff intro: bexI [where x = "nat a"])
  have pos: "pos (length values) a = nat a" if "0 \<le> a" for a
    using that by (simp add: pos_def)
  have "(case t of (a, b, factor) \<Rightarrow>
        if pos (length values) a \<in> set sel \<and> pos (length values) b \<in> set sel
        then values ! pos (length values) a * (factor - 1) else 0) =
      (case t of (a, b, factor) \<Rightarrow>
        if a \<in> int ` set sel \<and> b \<in> int ` set sel then values ! nat a * (factor - 1) else 0)"
    if "t \<in> set boosts" for t
  proof -
    obtain a b f where t: "t = (a, b, f)" by (cases t)
    from assms(4) that have "0 \<le> a" "0 \<le> b"
      unfolding t by (auto simp: list_all_iff)
    then show ?thesis
      unfolding t by (simp add: mem pos)
  qed
  then have "map (\<lambda>(a, b, factor).
        if pos (length values) a \<in> set sel \<and> pos (length values) b \<in> set sel
        then values ! pos (length values) a * (factor - 1) else 0) boosts =
      map (\<lambda>(a, b, factor).
        if a \<in> int ` set sel \<and> b \<in> int ` set sel then values ! nat a * (factor - 1) else 0)
        boosts"
    by (intro map_cong refl)
  with total_value_general [OF assms(1-3)] show ?thesis
    by (simp add: recomputed_value_def)
qed

theorem total_value_recomputed_witness:
  "build_model [2, 3] [1, 1] [10, 10] [(0, 1, 2)] 5 2 =
     Inr (built [2, 3] [1, 1] [10, 10] [(0, 1, 2)] 5 2) \<and>
   sound_response (built [2, 3] [1, 1] [10, 10] [(0, 1, 2)] 5 2)
     (exhaustive_solver 10 (built [2, 3] [1, 1] [10, 10] [(0, 1, 2)] 5 2)) \<and>
   knapsack_with_boosts exhaustive_solver [2, 3] [1, 1] [10, 10] [(0, 1, 2)] 5 2 10 =
     Inr (Some [0, 1], Some 30) \<and>
   list_all (\<lambda>(a, b, factor). 0 \<le> a \<and> 0 \<le> b) [(0 :: int, 1 :: int, 2 :: real)] \<and>
   30 = recomputed_value [10, 10] [(0, 1, 2)] [0, 1]"
proof -
  have nonneg: "list_all (\<lambda>(a, b, factor). 0 \<le> a \<and> 0 \<le> b) [(0 :: int, 1 :: int, 2 :: real)]"
    by simp
  from total_value_recomputed [where solve = exhaustive_solver and time_limit_s = 10,
      OF scenario_model exhaustive_solver_sound scenario_run nonneg]
    scenario_model exhaustive_solver_sound scenario_run nonneg
  show ?thesis by blast
qed

text \<open>
  The claim as stated covers every input. A boost endpoint in \<open>[-n, 0)\<close> is accepted
  by the subscript and read from the end of the list: with \<open>n = 2\<close> the triplet
  \<open>(-2, -1, 2.0)\<close> links items 0 and 1, so the solver's best value is 30 with both
  items selected, while the recomputation from the returned selection \<open>[0, 1]\<close> finds
  neither \<open>-2\<close> nor \<open>-1\<close> among the selected indices and yields 20.
\<close>

theorem negative_endpoint_not_recomputed:
  "knapsack_with_boosts exhaustive_solver [2, 3] [1, 1] [10, 10] [(- 2, - 1, 2)] 5 2 10 =
     Inr (Some [0, 1], Some 30) \<and>
   recomputed_value [10, 10] [(- 2, - 1, 2)] [0, 1] = 20"
  by code_simp

section \<open>No boosts\<close>

lemma empty_model:
  "build_model [2, 3] [1, 1] [10, 10] [] 5 2 = Inr (built [2, 3] [1, 1] [10, 10] [] 5 2)"
  by (simp add: build_model_closed buildable_def)

lemma empty_run:
  "knapsack_with_boosts exhaustive_solver [2, 3] [1, 1] [10, 10] [] 5 2 10 =
     Inr (Some [0, 1], Some 20)"
  by code_simp

text \<open>
  Claim C6. With an empty list of boosts the model that \<open>build_model\<close> returns is
  exactly the standard 0/1 knapsack model (the item variables, the two capacity
  constraints, the objective \<open>\<Sum> value_i * x_i\<close>, and nothing else), and the value
  returned with a selection is the sum of \<open>value_i\<close> over the selected indices.
\<close>

theorem empty_boosts_standard_knapsack:
  assumes "build_model weights volumes values [] max_weight max_volume = Inr m"
    and "sound_response m (solve time_limit_s m)"
    and "knapsack_with_boosts solve weights volumes values [] max_weight max_volume time_limit_s =
           Inr (Some sel, Some total_value)"
  shows "m = standard_knapsack_model weights volumes values max_weight max_volume \<and>
         total_value = sum_list (map (\<lambda>i. values ! i) sel)"
proof -
  have "m = built weights volumes values [] max_weight max_volume"
    by (rule build_model_InrD(2) [OF assms(1)])
  then have "m = standard_knapsack_model weights volumes values max_weight max_volume"
    by (simp add: built_def standard_knapsack_model_def)
  moreover have "total_value = sum_list (map (\<lambda>i. values ! i) sel)"
    using total_value_general [OF assms] by simp
  ultimately show ?thesis by simp
qed

theorem empty_boosts_standard_knapsack_witness:
  "build_model [2, 3] [1, 1] [10, 10] [] 5 2 = Inr (built [2, 3] [1, 1] [10, 10] [] 5 2) \<and>
   sound_response (built [2, 3] [1, 1] [10, 10] [] 5 2)
     (exhaustive_solver 10 (built [2, 3] [1, 1] [10, 10] [] 5 2)) \<and>
   knapsack_with_boosts exhaustive_solver [2, 3] [1, 1] [10, 10] [] 5 2 10 =
     Inr (Some [0, 1], Some 20) \<and>
   built [2, 3] [1, 1] [10, 10] [] 5 2 = standard_knapsack_model [2, 3] [1, 1] [10, 10] 5 2 \<and>
   20 = sum_list (map (\<lambda>i. [10, 10 :: real] ! i) [0, 1])"
  using empty_boosts_standard_knapsack [where solve = exhaustive_solver and time_limit_s = 10,
      OF empty_model exhaustive_solver_sound empty_run]
    empty_model exhaustive_solver_sound empty_run
  by blast

section \<open>An exhausted capacity\<close>

lemma sum_list_nonneg_zero:
  fixes f :: "nat \<Rightarrow> int"
  assumes "sum_list (map f xs) \<le> 0" and "\<And>x. x \<in> set xs \<Longrightarrow> 0 \<le> f x"
  shows "\<forall>x \<in> set xs. f x = 0"
proof -
  have "0 \<le> sum_list (map f xs)"
    using assms(2) by (intro sum_list_nonneg) auto
  with assms(1) have "sum_list (map f xs) = 0" by simp
  moreover have "\<And>y. y \<in> set (map f xs) \<Longrightarrow> 0 \<le> y"
    using assms(2) by auto
  ultimately have "\<forall>y \<in> set (map f xs). y = 0"
    by (simp only: sum_list_nonneg_eq_0_iff)
  then show ?thesis by simp
qed

lemma free_item_model:
  "build_model [2, 0] [1, 0] [10, 10] [(0, 1, 2)] 0 0 =
     Inr (built [2, 0] [1, 0] [10, 10] [(0, 1, 2)] 0 0)"
  by (simp add: build_model_closed buildable_def in_range_def)

lemma free_item_run:
  "knapsack_with_boosts exhaustive_solver [2, 0] [1, 0] [10, 10] [(0, 1, 2)] 0 0 10 =
     Inr (Some [1], Some 10)"
  by code_simp

lemma nothing_fits_model:
  "build_model [2, 3] [1, 1] [10, 10] [(0, 1, 2)] 0 2 =
     Inr (built [2, 3] [1, 1] [10, 10] [(0, 1, 2)] 0 2)"
  by (simp add: build_model_closed buildable_def in_range_def)

lemma nothing_fits_run:
  "knapsack_with_boosts exhaustive_solver [2, 3] [1, 1] [10, 10] [(0, 1, 2)] 0 2 10 =
     Inr (Some [], Some 0)"
  by code_simp

text \<open>
  Claim C7, as amended. For every input with non-negative weights and volumes and
  every selection and value returned from a solver that keeps its contract: when
  \<open>max_weight = 0\<close> every selected item has weight 0, when \<open>max_volume = 0\<close> every
  selected item has volume 0, and an empty selection comes with the value 0. So the
  result is \<open>([], 0)\<close> whenever no item is free in the exhausted dimension.
\<close>

theorem exhausted_capacity_selection:
  assumes "build_model weights volumes values boosts max_weight max_volume = Inr m"
    and "sound_response m (solve time_limit_s m)"
    and "knapsack_with_boosts solve weights volumes values boosts max_weight max_volume time_limit_s =
           Inr (Some sel, Some total_value)"
    and "list_all (\<lambda>w. 0 \<le> w) weights" and "list_all (\<lambda>v. 0 \<le> v) volumes"
  shows "(max_weight = 0 \<longrightarrow> list_all (\<lambda>i. weights ! i = 0) sel) \<and>
         (max_volume = 0 \<longrightarrow> list_all (\<lambda>i. volumes ! i = 0) sel) \<and>
         (sel = [] \<longrightarrow> total_value = 0)"
proof -
  note cap = selection_within_capacity [OF assms(1-3)]
  have w: "0 \<le> weights ! i" if "i \<in> set sel" for i
    using cap that assms(4) by (auto simp: list_all_length)
  have v: "0 \<le> volumes ! i" if "i \<in> set sel" for i
    using cap that assms(5) by (auto simp: list_all_length)
  have "list_all (\<lambda>i. weights ! i = 0) sel" if "max_weight = 0"
    using sum_list_nonneg_zero [of "\<lambda>i. weights ! i" sel] cap w that
    by (simp add: list_all_iff)
  moreover have "list_all (\<lambda>i. volumes ! i = 0) sel" if "max_volume = 0"
    using sum_list_nonneg_zero [of "\<lambda>i. volumes ! i" sel] cap v that
    by (simp add: list_all_iff)
  moreover have "total_value = 0" if "sel = []"
    using total_value_general [OF assms(1-3)] that by (simp add: split_def)
  ultimately show ?thesis by blast
qed

theorem exhausted_capacity_selection_witness:
  "(build_model [2, 0] [1, 0] [10, 10] [(0, 1, 2)] 0 0 =
      Inr (built [2, 0] [1, 0] [10, 10] [(0, 1, 2)] 0 0) \<and>
    sound_response (built [2, 0] [1, 0] [10, 10] [(0, 1, 2)] 0 0)
      (exhaustive_solver 10 (built [2, 0] [1, 0] [10, 10] [(0, 1, 2)] 0 0)) \<and>
    knapsack_with_boosts exhaustive_solver [2, 0] [1, 0] [10, 10] [(0, 1, 2)] 0 0 10 =
      Inr (Some [1], Some 10) \<and>
    list_all (\<lambda>w. 0 \<le> w) [2, 0 :: int] \<and> list_all (\<lambda>v. 0 \<le> v) [1, 0 :: int] \<and>
    list_all (\<lambda>i. [2, 0 :: int] ! i = 0) [1] \<and>
    list_all (\<lambda>i. [1, 0 :: int] ! i = 0) [1]) \<and>
   (build_model [2, 3] [1, 1] [10, 10] [(0, 1, 2)] 0 2 =
      Inr (built [2, 3] [1, 1] [10, 10] [(0, 1, 2)] 0 2) \<and>
    sound_response (built [2, 3] [1, 1] [10, 10] [(0, 1, 2)] 0 2)
      (exhaustive_solver 10 (built [2, 3] [1, 1] [10, 10] [(0, 1, 2)] 0 2)) \<and>
    knapsack_with_boosts exhaustive_solver [2, 3] [1, 1] [10, 10] [(0, 1, 2)] 0 2 10 =
      Inr (Some [], Some 0) \<and>
    list_all (\<lambda>w. 0 \<le> w) [2, 3 :: int] \<and> list_all (\<lambda>v. 0 \<le> v) [1, 1 :: int] \<and>
    (0 :: real) = 0)"
proof -
  have a: "list_all (\<lambda>w. 0 \<le> w) [2, 0 :: int]" "list_all (\<lambda>v. 0 \<le> v) [1, 0 :: int]"
    and b: "list_all (\<lambda>w. 0 \<le> w) [2, 3 :: int]" "list_all (\<lambda>v. 0 \<le> v) [1, 1 :: int]"
    by simp_all
  from exhausted_capacity_selection [where solve = exhaustive_solver and time_limit_s = 10,
      OF free_item_model exhaustive_solver_sound free_item_run a]
  have "list_all (\<lambda>i. [2, 0 :: int] ! i = 0) [1]" "list_all (\<lambda>i. [1, 0 :: int] ! i = 0) [1]"
    by blast+
  moreover
  from exhausted_capacity_selection [where solve = exhaustive_solver and time_limit_s = 10,
      OF nothing_fits_model exhaustive_solver_sound nothing_fits_run b]
  have "(0 :: real) = 0"
    by blast
  ultimately show ?thesis
    using free_item_model free_item_run nothing_fits_model nothing_fits_run
      exhaustive_solver_sound a b
    by blast
qed

text \<open>
  The claim as stated lets only items of zero weight and zero volume into the
  selection. With \<open>max_weight = 0\<close> and \<open>max_volume = 100\<close> an item of weight 0 and
  volume 5 fits, and an optimal solver selects it for its value.
\<close>

theorem weightless_item_selected:
  "knapsack_with_boosts exhaustive_solver [0] [5] [7] [] 0 100 10 = Inr (Some [0], Some 7)"
  by code_simp

section \<open>Sign of the reported value\<close>





section \<open>Rejected calls\<close>

text \<open>
  Claim C4, as amended. For every input in which some boost triplet references an
  item index \<open>a\<close> or \<open>b\<close> outside \<open>[-n, n)\<close>, \<open>knapsack_with_boosts\<close> rejects the
  call: the subscript \<^verbatim>\<open>x[a]\<close> or \<^verbatim>\<open>x[b]\<close> raises \<open>IndexError\<close> in the boost
  loop of lines 33 to 41, so no model is handed over and the result is the same
  whatever the solver, which is not called.
\<close>

theorem out_of_range_endpoint_rejected:
  assumes "(a, b, factor) \<in> set boosts"
    and "a < - int (length values) \<or> int (length values) \<le> a \<or>
         b < - int (length values) \<or> int (length values) \<le> b"
  shows "link_loop (map X [0..<length values]) boosts ([], []) = Inl IndexError \<and>
         build_model weights volumes values boosts max_weight max_volume = Inl IndexError \<and>
         knapsack_with_boosts solve weights volumes values boosts max_weight max_volume
           time_limit_s = Inl IndexError"
proof -
  from assms(2) have "\<not> valid_boost (length values) (a, b, factor)"
    by (auto simp: in_range_def)
  with assms(1) have "\<exists>t \<in> set boosts. \<not> valid_boost (length values) t"
    by (rule rev_bexI)
  then have bad: "\<not> list_all (valid_boost (length values)) boosts"
    by (simp add: list_all_iff)
  then have "link_loop (map X [0..<length values]) boosts ([], []) = Inl IndexError"
    by (simp add: link_loop_closed)
  moreover from bad
  have "build_model weights volumes values boosts max_weight max_volume = Inl IndexError"
    by (simp add: build_model_closed buildable_def)
  moreover from this
  have "knapsack_with_boosts solve weights volumes values boosts max_weight max_volume
      time_limit_s = Inl IndexError"
    by (simp add: knapsack_with_boosts_def Let_def)
  ultimately show ?thesis by simp
qed

theorem out_of_range_endpoint_rejected_witness:
  "(0, 2, 2) \<in> set [(0 :: int, 2 :: int, 2 :: real)] \<and>
   int (length [10, 10 :: real]) \<le> 2 \<and>
   link_loop (map X [0..<length [10, 10 :: real]]) [(0, 2, 2)] ([], []) = Inl IndexError \<and>
   build_model [2, 3] [1, 1] [10, 10] [(0, 2, 2)] 5 2 = Inl IndexError \<and>
   knapsack_with_boosts exhaustive_solver [2, 3] [1, 1] [10, 10] [(0, 2, 2)] 5 2 10 =
     Inl IndexError"
proof -
  have mem: "(0, 2, 2) \<in> set [(0 :: int, 2 :: int, 2 :: real)]"
    and far: "int (length [10, 10 :: real]) \<le> 2"
    by simp_all
  from far have out: "(0 :: int) < - int (length [10, 10 :: real]) \<or>
      int (length [10, 10 :: real]) \<le> 0 \<or>
      (2 :: int) < - int (length [10, 10 :: real]) \<or> int (length [10, 10 :: real]) \<le> 2"
    by simp
  from out_of_range_endpoint_rejected [where solve = exhaustive_solver and weights = "[2, 3]"
      and volumes = "[1, 1]" and max_weight = 5 and max_volume = 2 and time_limit_s = 10,
      OF mem out] mem far
  show ?thesis by blast
qed

text \<open>
  The claim as stated has a call rejected as soon as an endpoint lies outside
  \<open>[0, n)\<close> or a weight, a volume or a capacity is negative. The input below has all
  of these at once (the endpoints \<open>-2\<close> and \<open>-1\<close>, negative weights and volumes, and
  both capacities \<open>-1\<close>) and is solved like any other: with \<open>n = 2\<close> the endpoint
  \<open>-2\<close> is item 0, whose value 10 the boost adds once more, so both items are
  selected for \<open>10 + 20 + 10 = 40\<close>. A check for any one of the listed defects would
  have rejected it.
\<close>

theorem negative_inputs_accepted:
  "knapsack_with_boosts exhaustive_solver [- 2, - 3] [- 1, - 1] [10, 20] [(- 2, - 1, 2)]
     (- 1) (- 1) 10 =
     Inr (Some [0, 1], Some 40)"
  by code_simp

section \<open>A boost of factor 1\<close>

text \<open>
  Removing the boost at position \<open>k\<close> from the input renumbers the conjunction
  variables behind it; \<open>skip_z k\<close> maps the variables of the smaller model to those of
  the larger one. The lemmas compare the two models under this renaming.
\<close>

lemma linked_keep:
  "j + length bs \<le> k \<Longrightarrow>
   list_all (linked n (s \<circ> skip_z k)) (enumerate j bs) = list_all (linked n s) (enumerate j bs)"
proof (induction bs arbitrary: j)
  case Nil
  show ?case by simp
next
  case (Cons t bs)
  obtain a b f where t: "t = (a, b, f)" by (cases t)
  from Cons.prems have "Suc j + length bs \<le> k" "j < k" by simp_all
  with Cons.IH [of "Suc j"] show ?case
    unfolding t by simp
qed

lemma linked_shift:
  "k \<le> j \<Longrightarrow>
   list_all (linked n (s \<circ> skip_z k)) (enumerate j bs) =
   list_all (linked n s) (enumerate (Suc j) bs)"
proof (induction bs arbitrary: j)
  case Nil
  show ?case by simp
next
  case (Cons t bs)
  obtain a b f where t: "t = (a, b, f)" by (cases t)
  from Cons.prems have "k \<le> Suc j" "\<not> j < k" by simp_all
  with Cons.IH [of "Suc j"] show ?case
    unfolding t by simp
qed

lemma extra_keep:
  "j + length bs \<le> k \<Longrightarrow>
   map ((\<lambda>(c, v). c * of_bool ((s \<circ> skip_z k) v)) \<circ> extra_of values) (enumerate j bs) =
   map ((\<lambda>(c, v). c * of_bool (s v)) \<circ> extra_of values) (enumerate j bs)"
proof (induction bs arbitrary: j)
  case Nil
  show ?case by simp
next
  case (Cons t bs)
  obtain a b f where t: "t = (a, b, f)" by (cases t)
  from Cons.prems have "Suc j + length bs \<le> k" "j < k" by simp_all
  with Cons.IH [of "Suc j"] show ?case
    unfolding t by simp
qed

lemma extra_shift:
  "k \<le> j \<Longrightarrow>
   map ((\<lambda>(c, v). c * of_bool ((s \<circ> skip_z k) v)) \<circ> extra_of values) (enumerate j bs) =
   map ((\<lambda>(c, v). c * of_bool (s v)) \<circ> extra_of values) (enumerate (Suc j) bs)"
proof (induction bs arbitrary: j)
  case Nil
  show ?case by simp
next
  case (Cons t bs)
  obtain a b f where t: "t = (a, b, f)" by (cases t)
  from Cons.prems have "k \<le> Suc j" "\<not> j < k" by simp_all
  with Cons.IH [of "Suc j"] show ?case
    unfolding t by simp
qed

lemma selected_skip: "filter (\<lambda>i. (s \<circ> skip_z k) (X i)) is = filter (\<lambda>i. s (X i)) is"
  by simp

lemma satisfies_removed:
  "satisfies s (built weights volumes values (bs1 @ (a, b, f) # bs2) max_weight max_volume) =
     (satisfies (s \<circ> skip_z (length bs1))
        (built weights volumes values (bs1 @ bs2) max_weight max_volume) \<and>
      linked (length values) s (length bs1, a, b, f))"
  unfolding satisfies_built selected_skip
  by (auto simp: enumerate_append_eq linked_keep linked_shift)

lemma objective_removed:
  "eval_lin s (objective (built weights volumes values (bs1 @ (a, b, 1) # bs2)
      max_weight max_volume)) =
   eval_lin (s \<circ> skip_z (length bs1))
     (objective (built weights volumes values (bs1 @ bs2) max_weight max_volume))"
proof -
  have "((\<lambda>(c, v). c * of_bool (s v)) \<circ> extra_of values) (length bs1, a, b, 1) = 0"
    by simp
  then show ?thesis
    unfolding eval_objective_built selected_skip
    by (simp add: enumerate_append_eq extra_keep extra_shift del: o_apply)
qed

text \<open>
  Claim C9. If the model is built for an input that contains a boost triplet
  \<open>(a, b, 1.0)\<close>, then it is also built for the same input with that triplet
  removed; the triplet's term in the objective has the coefficient
  \<open>value_a * (1.0 - 1) = 0\<close>; the two objectives are the same function of the
  assignment (up to the renumbering of the conjunction variables); and the two models
  have the same optimal objective value.
\<close>

theorem unit_boost_is_neutral:
  assumes "build_model weights volumes values (bs1 @ (a, b, 1) # bs2) max_weight max_volume = Inr m"
  shows "\<exists>m'. build_model weights volumes values (bs1 @ bs2) max_weight max_volume = Inr m' \<and>
     terms (objective m) ! (length values + length bs1) = (0, Z (length bs1)) \<and>
     (\<forall>s. eval_lin s (objective m) = eval_lin (s \<circ> skip_z (length bs1)) (objective m')) \<and>
     (\<forall>v. is_optimum m v = is_optimum m' v)"
proof -
  let ?k = "length bs1" and ?n = "length values"
  let ?m' = "built weights volumes values (bs1 @ bs2) max_weight max_volume"
  note m = build_model_InrD [OF assms]
  from m(1) have "buildable weights volumes values (bs1 @ bs2)"
    by (simp add: buildable_def)
  then have built': "build_model weights volumes values (bs1 @ bs2) max_weight max_volume = Inr ?m'"
    by (simp add: build_model_closed)
  have coeff: "terms (objective m) ! (?n + ?k) = (0, Z ?k)"
    unfolding m(2) built_def by (simp add: enumerate_append_eq nth_append)
  have obj: "eval_lin s (objective m) = eval_lin (s \<circ> skip_z ?k) (objective ?m')" for s
    unfolding m(2) by (rule objective_removed)
  have down: "satisfies (s \<circ> skip_z ?k) ?m'" if "satisfies s m" for s
    using that unfolding m(2) satisfies_removed by simp
  have up: "\<exists>s. satisfies s m \<and> s \<circ> skip_z ?k = s'" if sat': "satisfies s' ?m'" for s'
  proof -
    define s where "s = (\<lambda>v. case v of X i \<Rightarrow> s' (X i)
      | Z j \<Rightarrow> if j < ?k then s' (Z j)
               else if j = ?k then s' (X (pos ?n a)) \<and> s' (X (pos ?n b))
               else s' (Z (j - 1)))"
    have same: "s \<circ> skip_z ?k = s'"
    proof
      fix v show "(s \<circ> skip_z ?k) v = s' v"
        by (cases v) (simp_all add: s_def)
    qed
    moreover have "linked ?n s (?k, a, b, 1)"
      by (simp add: s_def)
    ultimately have "satisfies s m"
      unfolding m(2) satisfies_removed using sat' by simp
    with same show ?thesis by blast
  qed
  have opt: "is_optimum m v = is_optimum ?m' v" for v
  proof
    assume "is_optimum m v"
    then obtain s where s: "satisfies s m" "eval_lin s (objective m) = v"
      and best: "\<And>t. satisfies t m \<Longrightarrow> eval_lin t (objective m) \<le> v"
      by (auto simp: is_optimum_def)
    have "satisfies (s \<circ> skip_z ?k) ?m'" "eval_lin (s \<circ> skip_z ?k) (objective ?m') = v"
      using s down obj by simp_all
    moreover have "eval_lin t' (objective ?m') \<le> v" if "satisfies t' ?m'" for t'
    proof -
      from up [OF that] obtain t where "satisfies t m" "t \<circ> skip_z ?k = t'" by blast
      with best [of t] obj [of t] show ?thesis by simp
    qed
    ultimately show "is_optimum ?m' v"
      unfolding is_optimum_def by blast
  next
    assume "is_optimum ?m' v"
    then obtain s' where s': "satisfies s' ?m'" "eval_lin s' (objective ?m') = v"
      and best: "\<And>t'. satisfies t' ?m' \<Longrightarrow> eval_lin t' (objective ?m') \<le> v"
      by (auto simp: is_optimum_def)
    from up [OF s'(1)] obtain s where "satisfies s m" "s \<circ> skip_z ?k = s'" by blast
    with s'(2) obj [of s] have "satisfies s m" "eval_lin s (objective m) = v"
      by simp_all
    moreover have "eval_lin t (objective m) \<le> v" if "satisfies t m" for t
      using best [OF down [OF that]] obj [of t] by simp
    ultimately show "is_optimum m v"
      unfolding is_optimum_def by blast
  qed
  from built' coeff obj opt show ?thesis by blast
qed

lemma unit_boost_model:
  "build_model [2, 3] [1, 1] [10, 10] ([(0, 1, 2)] @ (1, 0, 1) # []) 5 2 =
     Inr (built [2, 3] [1, 1] [10, 10] ([(0, 1, 2)] @ (1, 0, 1) # []) 5 2)"
  by (simp add: build_model_closed buildable_def in_range_def)

theorem unit_boost_is_neutral_witness:
  "build_model [2, 3] [1, 1] [10, 10] ([(0, 1, 2)] @ (1, 0, 1) # []) 5 2 =
     Inr (built [2, 3] [1, 1] [10, 10] ([(0, 1, 2)] @ (1, 0, 1) # []) 5 2) \<and>
   (\<exists>m'. build_model [2, 3] [1, 1] [10, 10] ([(0, 1, 2)] @ []) 5 2 = Inr m' \<and>
      terms (objective (built [2, 3] [1, 1] [10, 10] ([(0, 1, 2)] @ (1, 0, 1) # []) 5 2)) !
        (length [10, 10 :: real] + length [(0 :: int, 1 :: int, 2 :: real)]) =
        (0, Z (length [(0 :: int, 1 :: int, 2 :: real)])) \<and>
      (\<forall>s. eval_lin s
           (objective (built [2, 3] [1, 1] [10, 10] ([(0, 1, 2)] @ (1, 0, 1) # []) 5 2)) =
         eval_lin (s \<circ> skip_z (length [(0 :: int, 1 :: int, 2 :: real)])) (objective m')) \<and>
      (\<forall>v. is_optimum (built [2, 3] [1, 1] [10, 10] ([(0, 1, 2)] @ (1, 0, 1) # []) 5 2) v =
         is_optimum m' v))"
  using unit_boost_is_neutral [OF unit_boost_model] unit_boost_model
  by blast

end
